theory Spec2Isabelle
  imports Complex_Main "HOL-Library.List_Lexorder" "HOL-Library.Char_ord"
begin

section \<open>Numbers\<close>

text \<open>
  The finite values of a JavaScript number are rationals, and every operation the two
  conversions below apply to their input is exact on them: a division by 1024 or by 128 and
  a multiplication by 8 only change the exponent of a double. The numbers of this
  development are therefore \<^typ>\<open>rat\<close>; \<open>NaN\<close> and the infinities are outside it.
\<close>

type_synonym number = rat

text \<open>
  \<open>Math.round(x)\<close> is the integer nearest to \<open>x\<close>, the larger one at a tie.
\<close>

definition Math_round :: "number \<Rightarrow> int" where
  "Math_round x = \<lfloor>x + 1 / 2\<rfloor>"

text \<open>
  \<open>parseFloat(x.toFixed(1))\<close>: \<open>toFixed(1)\<close> writes the \<open>n / 10\<close> nearest to the exact
  value of \<open>x\<close>, the larger \<open>n\<close> at a tie, after taking the sign off a negative \<open>x\<close>;
  \<open>parseFloat\<close> reads that decimal back. The string in between is represented by the
  number it denotes.
\<close>

definition toFixed1 :: "number \<Rightarrow> number" where
  "toFixed1 x =
     (if x < 0 then - (of_int \<lfloor>- x * 10 + 1 / 2\<rfloor> / 10)
      else of_int \<lfloor>x * 10 + 1 / 2\<rfloor> / 10)"

section \<open>Awaited calls and exceptions\<close>

text \<open>
  An awaited promise either rejects, and the \<open>await\<close> throws, or fulfils with a value.
  The three libraries behind the handlers (systeminformation, node-wifi, local-devices) are
  outside the repository: what each of their calls does is an argument of the handler's
  model.
\<close>

datatype 'a awaited = Rejected | Fulfilled 'a

datatype exn = Exn

section \<open>The handler of get-active-connection (src/electron/main.ts)\<close>

text \<open>An entry of \<open>si.networkInterfaces()\<close>; \<open>speed\<close> is \<open>null\<close> when unknown.\<close>

record NetworkInterfacesData =
  if_iface :: string
  if_type :: string
  if_speed :: "number option"
  if_operstate :: string
  if_ip4 :: string
  if_mac :: string

text \<open>An entry of \<open>wifi.getCurrentConnections()\<close>.\<close>

record WiFiConnection =
  wifi_ssid :: string
  wifi_signal_level :: number
  wifi_security :: string

text \<open>
  The object the handler returns. The literal returned when there is no interface has five
  properties only; the other four are \<open>None\<close> there.
\<close>

record ConnectionStats =
  ssid :: string
  signal_level :: "number option"
  security :: "string option"
  type :: string
  speed :: number
  status :: string
  ip4 :: string
  mac :: "string option"
  iface :: "string option"

text \<open>
  \<^verbatim>\<open>allInterfaces.find(i => i.iface === defaultIfaceName)
    || allInterfaces.find(i => i.operstate === 'up' && i.ip4 !== '')\<close>:
  an entry is an object, so the left operand is falsy only when nothing was found.
\<close>

definition find_iface :: "string \<Rightarrow> NetworkInterfacesData list \<Rightarrow> NetworkInterfacesData option" where
  "find_iface defaultIfaceName allInterfaces =
     (case find (\<lambda>i. if_iface i = defaultIfaceName) allInterfaces of
        Some i \<Rightarrow> Some i
      | None \<Rightarrow> find (\<lambda>i. if_operstate i = ''up'' \<and> if_ip4 i \<noteq> []) allInterfaces)"

definition no_connection :: ConnectionStats where
  "no_connection =
     \<lparr>ssid = ''No Connection'', signal_level = None, security = None, type = ''none'',
      speed = 0, status = ''down'', ip4 = ''0.0.0.0'', mac = None, iface = None\<rparr>"

text \<open>The object \<open>stats\<close> as first built from the interface; \<open>iface.speed || 0\<close>.\<close>

definition initial_stats :: "NetworkInterfacesData \<Rightarrow> ConnectionStats" where
  "initial_stats i =
     \<lparr>ssid = if_iface i, signal_level = Some 100, security = Some ''N/A'', type = if_type i,
      speed = (case if_speed i of None \<Rightarrow> 0 | Some v \<Rightarrow> v), status = if_operstate i,
      ip4 = if_ip4 i, mac = Some (if_mac i), iface = Some (if_iface i)\<rparr>"

text \<open>
  The body of the inner \<open>try\<close>: the wireless query and the three assignments, made when the
  answer is a non-empty array; \<open>connections[0].ssid || iface.iface\<close> takes the interface
  name for an empty SSID.
\<close>

definition wifi_try ::
  "NetworkInterfacesData \<Rightarrow> ConnectionStats \<Rightarrow> WiFiConnection list option awaited \<Rightarrow> exn + ConnectionStats" where
  "wifi_try i stats w =
     (case w of
        Rejected \<Rightarrow> Inl Exn
      | Fulfilled connections \<Rightarrow>
          (case connections of
             Some (c # cs) \<Rightarrow>
               Inr (stats\<lparr>ssid := (if wifi_ssid c \<noteq> [] then wifi_ssid c else if_iface i),
                          signal_level := Some (wifi_signal_level c),
                          security := Some (wifi_security c)\<rparr>)
           | _ \<Rightarrow> Inr stats))"

text \<open>
  The body of the outer \<open>try\<close>. Its arguments are what \<open>si.networkInterfaceDefault()\<close>,
  \<open>si.networkInterfaces()\<close> and \<open>wifi.getCurrentConnections()\<close> do when awaited; the inner
  \<open>catch\<close> only logs, and leaves \<open>stats\<close> as it was.
\<close>

definition get_active_connection_try ::
  "string awaited \<Rightarrow> NetworkInterfacesData list awaited \<Rightarrow> WiFiConnection list option awaited
     \<Rightarrow> exn + ConnectionStats" where
  "get_active_connection_try d ifs w =
     (case d of
        Rejected \<Rightarrow> Inl Exn
      | Fulfilled defaultIfaceName \<Rightarrow>
          (case ifs of
             Rejected \<Rightarrow> Inl Exn
           | Fulfilled allInterfaces \<Rightarrow>
               (case find_iface defaultIfaceName allInterfaces of
                  None \<Rightarrow> Inr no_connection
                | Some i \<Rightarrow>
                    (let stats = initial_stats i in
                     if if_type i = ''wireless'' then
                       (case wifi_try i stats w of Inl wErr \<Rightarrow> Inr stats | Inr stats' \<Rightarrow> Inr stats')
                     else Inr (stats\<lparr>ssid := ''Ethernet Connection''\<rparr>)))))"

text \<open>
  The handler: the outer \<open>catch\<close> logs and returns \<open>null\<close>, here \<open>Inr None\<close>. \<open>Inl\<close> would be
  an exception leaving the handler.
\<close>

definition get_active_connection ::
  "string awaited \<Rightarrow> NetworkInterfacesData list awaited \<Rightarrow> WiFiConnection list option awaited
     \<Rightarrow> exn + ConnectionStats option" where
  "get_active_connection d ifs w =
     (case get_active_connection_try d ifs w of
        Inl error \<Rightarrow> Inr None
      | Inr stats \<Rightarrow> Inr (Some stats))"

section \<open>The handler of get-local-devices and its guard (src/electron/main.ts)\<close>

text \<open>
  \<^verbatim>\<open>
  let isScanning = false
  ipcMain.handle('get-local-devices', async () => {
    if (isScanning) return []
    isScanning = true
    try {
      const devices = await Promise.race([
        find(),
        new Promise((_, reject) => setTimeout(() => reject(new Error("Timeout")), 15000))
      ])
      return devices
    } catch (error) {
      console.error('Local devices scan error:', error)
      return []
    } finally {
      isScanning = false
    }
  })
  \<close>
  The handler is a coroutine with one suspension point, the \<open>await\<close> of the race, and
  \<open>isScanning\<close> is shared by all its invocations. The model is the event loop of the main
  process: a state, and one atomic step for each event the handler reacts to. An
  invocation is numbered when it arrives; the discovery and the timer it starts carry its
  number. A device is whatever \<open>find()\<close> returns: the handler does not look inside.
\<close>

record 'd coordinator =
  isScanning :: bool
  awaiting :: "nat list"
  discoveries :: "nat list"
  replies :: "(nat \<times> 'd list) list"
  next_id :: nat

text \<open>
  \<open>awaiting\<close>: the invocations suspended at the \<open>await\<close>, which are the scans that hold the
  guard; \<open>discoveries\<close>: the calls of \<open>find()\<close> whose promise has not settled yet;
  \<open>replies\<close>: what each finished invocation returned, in the order of their return.
\<close>

datatype 'd scan_event =
    Invoke
  | FindFulfils nat "'d list"
  | FindRejects nat
  | TimerFires nat

definition coordinator_init :: "'d coordinator" where
  "coordinator_init =
     \<lparr>isScanning = False, awaiting = [], discoveries = [], replies = [], next_id = 0\<rparr>"

text \<open>
  The handler from its entry to the \<open>await\<close>: with the guard set it returns \<open>[]\<close> at once
  (this \<open>return\<close> is before the \<open>try\<close>, so the \<open>finally\<close> does not run for it); otherwise it
  sets the guard, calls \<open>find()\<close>, arms the timer and suspends.
\<close>

definition invoke :: "'d coordinator \<Rightarrow> 'd coordinator" where
  "invoke s =
     (let i = next_id s in
      if isScanning s then s\<lparr>replies := replies s @ [(i, [])], next_id := Suc i\<rparr>
      else s\<lparr>isScanning := True, awaiting := awaiting s @ [i],
             discoveries := discoveries s @ [i], next_id := Suc i\<rparr>)"

text \<open>
  The handler from the \<open>await\<close> to its end, for invocation \<open>i\<close> returning \<open>r\<close>: \<open>r\<close> is the
  devices after \<open>return devices\<close> and \<open>[]\<close> after the \<open>catch\<close>; the \<open>finally\<close> clears the guard.
\<close>

definition resume :: "nat \<Rightarrow> 'd list \<Rightarrow> 'd coordinator \<Rightarrow> 'd coordinator" where
  "resume i r s =
     s\<lparr>isScanning := False, awaiting := removeAll i (awaiting s), replies := replies s @ [(i, r)]\<rparr>"

text \<open>
  \<open>Promise.race\<close> settles with the first of its two promises to settle, and the handler
  resumes in the same turn of the event loop; whatever settles later finds the invocation
  no longer waiting and changes nothing. The timer is never cleared and \<open>find()\<close> is never
  cancelled: after the timer has won, the discovery stays among \<open>discoveries\<close> until its
  own promise settles.
\<close>

fun scan_step :: "'d coordinator \<Rightarrow> 'd scan_event \<Rightarrow> 'd coordinator" where
  "scan_step s Invoke = invoke s"
| "scan_step s (FindFulfils i devices) =
     (let s' = s\<lparr>discoveries := removeAll i (discoveries s)\<rparr> in
      if i \<in> set (awaiting s) then resume i devices s' else s')"
| "scan_step s (FindRejects i) =
     (let s' = s\<lparr>discoveries := removeAll i (discoveries s)\<rparr> in
      if i \<in> set (awaiting s) then resume i [] s' else s')"
| "scan_step s (TimerFires i) =
     (if i \<in> set (awaiting s) then resume i [] s else s)"

definition scan_run :: "'d coordinator \<Rightarrow> 'd scan_event list \<Rightarrow> 'd coordinator" where
  "scan_run s evs = foldl scan_step s evs"

text \<open>
  What one call of \<open>find()\<close> does, with the time in milliseconds after the call at which its
  promise settles, and the events of invocation \<open>i\<close> that follow from it, in the order of
  their occurrence. The timer is armed after \<open>find()\<close> has been called and fires 15000 ms
  later, so a discovery that exceeds 15000 ms settles after the timer. At 15000 ms exactly
  the order is the event loop's; here the discovery comes first, and \<open>scan_step\<close> covers
  either order. A call of \<open>find()\<close> that throws at once is \<open>Fails 0\<close>.
\<close>

datatype 'd discovery = Finds nat "'d list" | Fails nat | Hangs

fun schedule :: "nat \<Rightarrow> 'd discovery \<Rightarrow> 'd scan_event list" where
  "schedule i (Finds t devices) =
     (if 15000 < t then [TimerFires i, FindFulfils i devices]
      else [FindFulfils i devices, TimerFires i])"
| "schedule i (Fails t) =
     (if 15000 < t then [TimerFires i, FindRejects i] else [FindRejects i, TimerFires i])"
| "schedule i Hangs = [TimerFires i]"

text \<open>An entry of the device list as the renderer types it.\<close>

record Device =
  device_ip :: string
  device_mac :: string
  device_name :: string

text \<open>The guard is set exactly while one invocation waits, and never more than one does.\<close>

definition guard_inv :: "'d coordinator \<Rightarrow> bool" where
  "guard_inv s = (if isScanning s then length (awaiting s) = 1 else awaiting s = [])"

section \<open>The handler of get-network-usage (src/electron/main.ts)\<close>

text \<open>
  An entry of \<open>si.networkStats\<close>: the two rates the application reads, in bytes per second;
  the other properties of an entry are the record's extension.
\<close>

record NetworkUsage =
  rx_sec :: number
  tx_sec :: number

text \<open>
  The body of the \<open>try\<close>. \<open>statsOf\<close> is what \<open>si.networkStats(defaultIface)\<close> does for a
  given name and \<open>allStats\<close> what \<open>si.networkStats()\<close> does; an answer \<open>None\<close> is \<open>null\<close> or
  \<open>undefined\<close>, on which \<open>stats &&\<close> is falsy and \<open>allStats.find\<close> a TypeError.
  \<^verbatim>\<open>return allStats.find(s => s.rx_sec > 0 || s.tx_sec > 0) || allStats[0] || null\<close>
\<close>

definition get_network_usage_try ::
  "string awaited \<Rightarrow> (string \<Rightarrow> 'a NetworkUsage_scheme list option awaited)
     \<Rightarrow> 'a NetworkUsage_scheme list option awaited \<Rightarrow> exn + 'a NetworkUsage_scheme option" where
  "get_network_usage_try d statsOf allStats =
     (case d of
        Rejected \<Rightarrow> Inl Exn
      | Fulfilled defaultIface \<Rightarrow>
          (case statsOf defaultIface of
             Rejected \<Rightarrow> Inl Exn
           | Fulfilled stats \<Rightarrow>
               (case stats of
                  Some (s # ss) \<Rightarrow> Inr (Some s)
                | _ \<Rightarrow>
                    (case allStats of
                       Rejected \<Rightarrow> Inl Exn
                     | Fulfilled None \<Rightarrow> Inl Exn
                     | Fulfilled (Some xs) \<Rightarrow>
                         (case find (\<lambda>s. rx_sec s > 0 \<or> tx_sec s > 0) xs of
                            Some s \<Rightarrow> Inr (Some s)
                          | None \<Rightarrow> (case xs of s # ss \<Rightarrow> Inr (Some s) | [] \<Rightarrow> Inr None))))))"

definition get_network_usage ::
  "string awaited \<Rightarrow> (string \<Rightarrow> 'a NetworkUsage_scheme list option awaited)
     \<Rightarrow> 'a NetworkUsage_scheme list option awaited \<Rightarrow> exn + 'a NetworkUsage_scheme option" where
  "get_network_usage d statsOf allStats =
     (case get_network_usage_try d statsOf allStats of
        Inl error \<Rightarrow> Inr None
      | Inr r \<Rightarrow> Inr r)"

section \<open>Display: rate formatting and the throughput gauges (src/src/App.tsx)\<close>

record Speed =
  val :: number
  unit :: string

text \<open>
  \<^verbatim>\<open>
  const formatSpeed = (bytesPerSec: number) => {
      if (bytesPerSec === 0) return { val: 0, unit: 'B/s' }
      const kbps = bytesPerSec / 1024
      if (kbps < 1000) return { val: parseFloat(kbps.toFixed(1)), unit: 'KB/s' }
      const mbps = kbps / 1024
      return { val: parseFloat(mbps.toFixed(1)), unit: 'MB/s' }
  }
  \<close>
\<close>

definition formatSpeed :: "number \<Rightarrow> Speed" where
  "formatSpeed bytesPerSec =
     (if bytesPerSec = 0 then \<lparr>val = 0, unit = ''B/s''\<rparr>
      else let kbps = bytesPerSec / 1024 in
        if kbps < 1000 then \<lparr>val = toFixed1 kbps, unit = ''KB/s''\<rparr>
        else let mbps = kbps / 1024 in \<lparr>val = toFixed1 mbps, unit = ''MB/s''\<rparr>)"

text \<open>
  The value handed to the download and the upload gauge:
  \<^verbatim>\<open>dl.unit === 'MB/s' ? Math.round(dl.val * 8) : Math.round(dl.val / 128)\<close>.
\<close>

definition gaugeValue :: "Speed \<Rightarrow> int" where
  "gaugeValue dl =
     (if unit dl = ''MB/s'' then Math_round (val dl * 8) else Math_round (val dl / 128))"

text \<open>
  A number with at most one decimal place, and a number of that kind nearest to another:
  what rounding to one decimal place gives.
\<close>

definition one_decimal :: "number \<Rightarrow> bool" where
  "one_decimal v = (v * 10 = of_int \<lfloor>v * 10\<rfloor>)"

definition rounds_to_one_decimal :: "number \<Rightarrow> number \<Rightarrow> bool" where
  "rounds_to_one_decimal x v = (one_decimal v \<and> \<bar>v - x\<bar> \<le> 1 / 20)"

text \<open>An integer nearest to a number.\<close>

definition nearest_integer :: "number \<Rightarrow> int \<Rightarrow> bool" where
  "nearest_integer x n = (\<bar>of_int n - x\<bar> \<le> 1 / 2)"

section \<open>Display: the polling loop (src/src/App.tsx)\<close>

record UsageSample =
  label :: string
  rx :: number
  tx :: number

text \<open>
  \<^verbatim>\<open>new Date().toLocaleTimeString('en-US',
      { hour12: false, hour: '2-digit', minute: '2-digit', second: '2-digit' })\<close>
  The clock reading is the local wall-clock time in whole seconds; the label is its time of
  day on the 24-hour clock, \<open>HH:MM:SS\<close> with the hour from \<open>00\<close> to \<open>23\<close>.
\<close>

definition digit :: "nat \<Rightarrow> char" where
  "digit d = char_of (48 + d)"

definition pad2 :: "nat \<Rightarrow> string" where
  "pad2 n = [digit (n div 10 mod 10), digit (n mod 10)]"

definition toLocaleTimeString :: "nat \<Rightarrow> string" where
  "toLocaleTimeString t =
     pad2 (t div 3600 mod 24) @ '':'' @ pad2 (t div 60 mod 60) @ '':'' @ pad2 (t mod 60)"

text \<open>
  The updater handed to \<open>setUsageHistory\<close>, for the clock reading \<open>t\<close> of \<open>new Date()\<close>:
  \<^verbatim>\<open>
  const rxKB = usage.rx_sec / 1024
  const txKB = usage.tx_sec / 1024
  const newData = [...prev, { label: now, rx: rxKB, tx: txKB }]
  return newData.slice(-40)
  \<close>
  \<open>slice(-40)\<close> starts at \<open>max (length - 40) 0\<close>, which the subtraction on \<^typ>\<open>nat\<close> is.
\<close>

definition usage_sample :: "nat \<Rightarrow> 'a NetworkUsage_scheme \<Rightarrow> UsageSample" where
  "usage_sample t usage =
     \<lparr>label = toLocaleTimeString t, rx = rx_sec usage / 1024, tx = tx_sec usage / 1024\<rparr>"

definition append_usage :: "UsageSample list \<Rightarrow> nat \<Rightarrow> 'a NetworkUsage_scheme \<Rightarrow> UsageSample list" where
  "append_usage prev t usage =
     (let newData = prev @ [usage_sample t usage]
      in drop (length newData - 40) newData)"

text \<open>
  \<open>fetchStats\<close> is a coroutine with two suspension points, the two awaited calls over the
  bridge. The component's state is modelled with the ticks that are suspended, each at
  the call it waits for, with the two timers of the effect, and with the life of the
  component: rendered and not yet mounted, mounted, or unmounted. React is outside the
  repository; what the model takes from it is that the cleanup of an effect and its next
  run happen together when a dependency has changed, that the cleanup runs alone at the
  unmount, and that the state setters of an unmounted component have no effect (the
  updater handed to \<open>setUsageHistory\<close> is then never run, and \<open>new Date()\<close> never read).
\<close>

datatype phase = AwaitConnection | AwaitUsage

datatype life = Rendered | Mounted | Unmounted

record aggregator =
  life :: life
  isPolling :: bool
  connection :: "ConnectionStats option"
  usageHistory :: "UsageSample list"
  statsInterval :: bool
  initialScanTimer :: bool
  ticks :: "nat \<Rightarrow> phase option"
  next_tick :: nat

datatype ui_event =
    Mount
  | DepsChange
  | Unmount
  | IntervalFires
  | ScanTimerFires
  | ConnectionSettles nat "ConnectionStats option awaited"
  | UsageSettles nat "NetworkUsage option awaited" nat

definition aggregator_init :: aggregator where
  "aggregator_init =
     \<lparr>life = Rendered, isPolling = True, connection = None, usageHistory = [],
      statsInterval = False, initialScanTimer = False, ticks = (\<lambda>i. None), next_tick = 0\<rparr>"

text \<open>
  \<open>fetchStats\<close> from its entry to the first \<open>await\<close>:
  \<^verbatim>\<open>if (!isPolling.current) return\<close>, then the call of \<open>getActiveConnection\<close>.
\<close>

definition fetchStats :: "aggregator \<Rightarrow> aggregator" where
  "fetchStats s =
     (if \<not> isPolling s then s
      else s\<lparr>ticks := (ticks s)(next_tick s \<mapsto> AwaitConnection), next_tick := Suc (next_tick s)\<rparr>)"

text \<open>
  The body of the effect and the function it returns:
  \<^verbatim>\<open>
  isPolling.current = true
  fetchStats()
  const statsInterval = setInterval(fetchStats, 1500)
  const initialScanTimer = setTimeout(scanDevices, 3000)
  return () => {
      isPolling.current = false
      clearInterval(statsInterval)
      clearTimeout(initialScanTimer)
  }
  \<close>
\<close>

definition effect :: "aggregator \<Rightarrow> aggregator" where
  "effect s = (fetchStats (s\<lparr>isPolling := True\<rparr>))\<lparr>statsInterval := True, initialScanTimer := True\<rparr>"

definition teardown :: "aggregator \<Rightarrow> aggregator" where
  "teardown s = s\<lparr>isPolling := False, statsInterval := False, initialScanTimer := False\<rparr>"

text \<open>The two state setters: they act on a mounted component only.\<close>

definition setConnection :: "ConnectionStats \<Rightarrow> aggregator \<Rightarrow> aggregator" where
  "setConnection conn s = (if life s = Mounted then s\<lparr>connection := Some conn\<rparr> else s)"

definition setUsageHistory :: "nat \<Rightarrow> NetworkUsage \<Rightarrow> aggregator \<Rightarrow> aggregator" where
  "setUsageHistory t usage s =
     (if life s = Mounted then s\<lparr>usageHistory := append_usage (usageHistory s) t usage\<rparr> else s)"

text \<open>
  The steps of the component.
  \<^item> \<open>Mount\<close> is the first run of the effect.
  \<^item> \<open>DepsChange\<close> is the cleanup followed at once by the effect. The effect depends on
    \<open>scanDevices\<close>, which changes with \<open>scanning\<close>, so this happens each time a scan starts
    or ends, the component staying mounted.
  \<^item> \<open>Unmount\<close> is the cleanup alone, after which the component is gone.
  \<^item> \<open>IntervalFires\<close> is a call of \<open>fetchStats\<close> by the interval, while it is armed.
  \<^item> \<open>ConnectionSettles i r\<close> resumes tick \<open>i\<close> at the first \<open>await\<close>: a rejection goes to
    the \<open>catch\<close> and ends the tick; otherwise \<open>if (conn) setConnection(conn)\<close>, and the call
    of \<open>getNetworkUsage\<close>.
  \<^item> \<open>UsageSettles i r t\<close> resumes tick \<open>i\<close> at the second \<open>await\<close>, the wall clock
    standing at \<open>t\<close>: \<open>if (usage) setUsageHistory(...)\<close>.
  \<^item> \<open>ScanTimerFires\<close> runs \<open>scanDevices\<close>, which touches neither the connection nor the
    usage history; only the timer's being spent is recorded.
  Nothing between an \<open>await\<close> and the use of its result reads \<open>isPolling\<close>.
\<close>

fun ui_step :: "aggregator \<Rightarrow> ui_event \<Rightarrow> aggregator" where
  "ui_step s Mount = (if life s = Rendered then effect (s\<lparr>life := Mounted\<rparr>) else s)"
| "ui_step s DepsChange = (if life s = Mounted then effect (teardown s) else s)"
| "ui_step s Unmount = (if life s = Mounted then (teardown s)\<lparr>life := Unmounted\<rparr> else s)"
| "ui_step s IntervalFires = (if statsInterval s then fetchStats s else s)"
| "ui_step s ScanTimerFires = (if initialScanTimer s then s\<lparr>initialScanTimer := False\<rparr> else s)"
| "ui_step s (ConnectionSettles i r) =
     (case ticks s i of
        Some AwaitConnection \<Rightarrow>
          (case r of
             Rejected \<Rightarrow> s\<lparr>ticks := (ticks s)(i := None)\<rparr>
           | Fulfilled None \<Rightarrow> s\<lparr>ticks := (ticks s)(i \<mapsto> AwaitUsage)\<rparr>
           | Fulfilled (Some conn) \<Rightarrow> (setConnection conn s)\<lparr>ticks := (ticks s)(i \<mapsto> AwaitUsage)\<rparr>)
      | _ \<Rightarrow> s)"
| "ui_step s (UsageSettles i r t) =
     (case ticks s i of
        Some AwaitUsage \<Rightarrow>
          (case r of
             Fulfilled (Some usage) \<Rightarrow> (setUsageHistory t usage s)\<lparr>ticks := (ticks s)(i := None)\<rparr>
           | _ \<Rightarrow> s\<lparr>ticks := (ticks s)(i := None)\<rparr>)
      | _ \<Rightarrow> s)"

definition ui_run :: "aggregator \<Rightarrow> ui_event list \<Rightarrow> aggregator" where
  "ui_run s evs = foldl ui_step s evs"

text \<open>
  The clock reading that a step takes: the one of \<open>new Date()\<close> in the updater, when the step
  runs the updater. A settle with no usage, of a tick that does not wait for it, or of an
  unmounted component takes none.
\<close>

fun reading_taken :: "aggregator \<Rightarrow> ui_event \<Rightarrow> nat option" where
  "reading_taken s (UsageSettles i (Fulfilled (Some usage)) t) =
     (if ticks s i = Some AwaitUsage \<and> life s = Mounted then Some t else None)"
| "reading_taken s e = None"

text \<open>
  The clock readings of the samples that the history retains after a trace, oldest first:
  \<open>rs\<close> are those of the samples retained before it, and the readings slide as the samples do.
\<close>

fun retained_readings :: "nat list \<Rightarrow> aggregator \<Rightarrow> ui_event list \<Rightarrow> nat list" where
  "retained_readings rs s [] = rs"
| "retained_readings rs s (e # evs) =
     retained_readings
       (case reading_taken s e of
          None \<Rightarrow> rs
        | Some t \<Rightarrow> drop (length (rs @ [t]) - 40) (rs @ [t]))
       (ui_step s e) evs"

section \<open>Rounding\<close>

lemma floor_numeral_quotient:
  "\<lfloor>(numeral a :: rat) / numeral b\<rfloor> = numeral a div numeral b"
  using floor_divide_of_int_eq [of "numeral a" "numeral b", where ?'a = rat] by simp

lemma toFixed1_one_decimal: "one_decimal (toFixed1 x)"
  by (simp add: toFixed1_def one_decimal_def)

lemma toFixed1_near: "\<bar>toFixed1 x - x\<bar> \<le> 1 / 20"
proof -
  have near: "\<bar>of_int \<lfloor>y * 10 + 1 / 2\<rfloor> / 10 - y\<bar> \<le> 1 / 20" for y :: rat
  proof -
    define n where "n = \<lfloor>y * 10 + 1 / 2\<rfloor>"
    have "of_int n \<le> y * 10 + 1 / 2" and "y * 10 + 1 / 2 < of_int n + 1"
      unfolding n_def by linarith+
    then have "\<bar>of_int n - y * 10\<bar> \<le> 1 / 2"
      by linarith
    then have "\<bar>(of_int n - y * 10) / 10\<bar> \<le> (1 / 2) / 10"
      by (simp only: abs_divide) simp
    then show ?thesis
      unfolding n_def by (simp add: diff_divide_distrib)
  qed
  show ?thesis
  proof (cases "x < 0")
    case True
    have "\<bar>toFixed1 x - x\<bar> = \<bar>of_int \<lfloor>(- x) * 10 + 1 / 2\<rfloor> / 10 - (- x)\<bar>"
      using True by (simp add: toFixed1_def abs_minus_commute add.commute)
    then show ?thesis
      using near [of "- x"] by simp
  next
    case False
    then show ?thesis
      using near [of x] by (simp add: toFixed1_def)
  qed
qed

lemma Math_round_near: "\<bar>of_int (Math_round x) - x\<bar> \<le> 1 / 2"
proof -
  have "of_int (Math_round x) \<le> x + 1 / 2" and "x + 1 / 2 < of_int (Math_round x) + 1"
    unfolding Math_round_def by linarith+
  then show ?thesis
    by linarith
qed

section \<open>Rate formatting and gauge values\<close>

text \<open>
  Claim C7. For a byte rate that is not negative, \<open>formatSpeed\<close> returns \<open>{0, "B/s"}\<close> at
  0; for another rate whose kilobyte value (the rate divided by 1024) is below 1000, that
  value rounded to one decimal place, with the unit \<open>"KB/s"\<close>; otherwise the kilobyte
  value divided by 1024 and rounded to one decimal place, with the unit \<open>"MB/s"\<close>. At
  500 * 1024 it returns \<open>{500.0, "KB/s"}\<close> and at 1500 * 1024 \<open>{1.5, "MB/s"}\<close>.
\<close>

theorem formatSpeed_units:
  assumes "0 \<le> bytesPerSec"
  shows "(bytesPerSec = 0 \<longrightarrow> formatSpeed bytesPerSec = \<lparr>val = 0, unit = ''B/s''\<rparr>) \<and>
         (bytesPerSec \<noteq> 0 \<and> bytesPerSec / 1024 < 1000 \<longrightarrow>
            unit (formatSpeed bytesPerSec) = ''KB/s'' \<and>
            rounds_to_one_decimal (bytesPerSec / 1024) (val (formatSpeed bytesPerSec))) \<and>
         (1000 \<le> bytesPerSec / 1024 \<longrightarrow>
            unit (formatSpeed bytesPerSec) = ''MB/s'' \<and>
            rounds_to_one_decimal (bytesPerSec / 1024 / 1024) (val (formatSpeed bytesPerSec))) \<and>
         formatSpeed (500 * 1024) = \<lparr>val = 500, unit = ''KB/s''\<rparr> \<and>
         formatSpeed (1500 * 1024) = \<lparr>val = 15 / 10, unit = ''MB/s''\<rparr>"
proof -
  have zero: "bytesPerSec = 0 \<longrightarrow> formatSpeed bytesPerSec = \<lparr>val = 0, unit = ''B/s''\<rparr>"
    by (simp add: formatSpeed_def)
  have kb: "bytesPerSec \<noteq> 0 \<and> bytesPerSec / 1024 < 1000 \<longrightarrow>
            unit (formatSpeed bytesPerSec) = ''KB/s'' \<and>
            rounds_to_one_decimal (bytesPerSec / 1024) (val (formatSpeed bytesPerSec))"
    using toFixed1_near [of "bytesPerSec / 1024"]
    by (simp add: formatSpeed_def rounds_to_one_decimal_def toFixed1_one_decimal)
  have mb: "1000 \<le> bytesPerSec / 1024 \<longrightarrow>
            unit (formatSpeed bytesPerSec) = ''MB/s'' \<and>
            rounds_to_one_decimal (bytesPerSec / 1024 / 1024) (val (formatSpeed bytesPerSec))"
    using toFixed1_near [of "bytesPerSec / 1024 / 1024"]
    by (auto simp add: formatSpeed_def rounds_to_one_decimal_def toFixed1_one_decimal Let_def)
  have ex1: "formatSpeed (500 * 1024) = \<lparr>val = 500, unit = ''KB/s''\<rparr>"
    by (simp add: formatSpeed_def toFixed1_def floor_numeral_quotient)
  have ex2: "formatSpeed (1500 * 1024) = \<lparr>val = 15 / 10, unit = ''MB/s''\<rparr>"
    by (simp add: formatSpeed_def toFixed1_def floor_numeral_quotient)
  from zero kb mb ex1 ex2 show ?thesis
    by blast
qed

theorem formatSpeed_units_witness:
  "(0 :: number) \<le> 0 \<and> formatSpeed 0 = \<lparr>val = 0, unit = ''B/s''\<rparr> \<and>
   (0 :: number) \<le> 2048 \<and> (2048 :: number) \<noteq> 0 \<and> (2048 :: number) / 1024 < 1000 \<and>
   unit (formatSpeed 2048) = ''KB/s'' \<and> rounds_to_one_decimal (2048 / 1024) (val (formatSpeed 2048)) \<and>
   (1000 :: number) \<le> 1536000 / 1024 \<and>
   unit (formatSpeed 1536000) = ''MB/s'' \<and>
   rounds_to_one_decimal (1536000 / 1024 / 1024) (val (formatSpeed 1536000))"
  using formatSpeed_units [of 0] formatSpeed_units [of 2048] formatSpeed_units [of 1536000]
  by simp

text \<open>
  Claim C8. The value of a throughput gauge is the formatted value times 8, rounded to an
  integer, when the unit is \<open>"MB/s"\<close>, and the formatted value divided by 128, rounded to
  an integer, for any other unit; \<open>{2.0, "MB/s"}\<close> gives 16 and \<open>{256.0, "KB/s"}\<close> gives 2.
\<close>

theorem gaugeValue_mapping:
  "(unit f = ''MB/s'' \<longrightarrow>
      gaugeValue f = Math_round (val f * 8) \<and> nearest_integer (val f * 8) (gaugeValue f)) \<and>
   (unit f \<noteq> ''MB/s'' \<longrightarrow>
      gaugeValue f = Math_round (val f / 128) \<and> nearest_integer (val f / 128) (gaugeValue f)) \<and>
   gaugeValue \<lparr>val = 2, unit = ''MB/s''\<rparr> = 16 \<and>
   gaugeValue \<lparr>val = 256, unit = ''KB/s''\<rparr> = 2"
proof -
  have ex1: "gaugeValue \<lparr>val = 2, unit = ''MB/s''\<rparr> = 16"
    by (simp add: gaugeValue_def Math_round_def floor_numeral_quotient)
  have ex2: "gaugeValue \<lparr>val = 256, unit = ''KB/s''\<rparr> = 2"
    by (simp add: gaugeValue_def Math_round_def floor_numeral_quotient)
  show ?thesis
    using ex1 ex2 Math_round_near [of "val f * 8"] Math_round_near [of "val f / 128"]
    by (simp add: gaugeValue_def nearest_integer_def)
qed

theorem gaugeValue_mapping_witness:
  "gaugeValue \<lparr>val = 3, unit = ''MB/s''\<rparr> = 24 \<and>
   nearest_integer 24 (gaugeValue \<lparr>val = 3, unit = ''MB/s''\<rparr>) \<and>
   ''KB/s'' \<noteq> ''MB/s'' \<and>
   gaugeValue \<lparr>val = 512, unit = ''KB/s''\<rparr> = 4 \<and>
   nearest_integer 4 (gaugeValue \<lparr>val = 512, unit = ''KB/s''\<rparr>)"
  using gaugeValue_mapping [of "\<lparr>val = 3, unit = ''MB/s''\<rparr>"]
    gaugeValue_mapping [of "\<lparr>val = 512, unit = ''KB/s''\<rparr>"]
  by (simp add: Math_round_def floor_numeral_quotient nearest_integer_def)

section \<open>The connection snapshot\<close>

lemma find_iface_None:
  assumes "\<forall>i \<in> set allInterfaces. if_iface i \<noteq> defaultIfaceName"
    and "\<forall>i \<in> set allInterfaces. \<not> (if_operstate i = ''up'' \<and> if_ip4 i \<noteq> [])"
  shows "find_iface defaultIfaceName allInterfaces = None"
proof -
  have "find (\<lambda>i. if_iface i = defaultIfaceName) allInterfaces = None"
    using assms(1) by (simp add: find_None_iff)
  moreover have "find (\<lambda>i. if_operstate i = ''up'' \<and> if_ip4 i \<noteq> []) allInterfaces = None"
    using assms(2) by (simp add: find_None_iff)
  ultimately show ?thesis
    by (simp add: find_iface_def)
qed

text \<open>
  Claim C4. When both interface queries answer and no interface qualifies (none carries
  the default interface's name, and none is up with a non-empty address), the call returns
  the disconnected snapshot: name "No Connection", type none, state down, address 0.0.0.0,
  speed 0; it does not return null.
\<close>

theorem get_active_connection_disconnected:
  assumes "d = Fulfilled defaultIfaceName"
    and "ifs = Fulfilled allInterfaces"
    and "\<forall>i \<in> set allInterfaces. if_iface i \<noteq> defaultIfaceName"
    and "\<forall>i \<in> set allInterfaces. \<not> (if_operstate i = ''up'' \<and> if_ip4 i \<noteq> [])"
  shows "get_active_connection d ifs w =
           Inr (Some \<lparr>ssid = ''No Connection'', signal_level = None, security = None,
                      type = ''none'', speed = 0, status = ''down'', ip4 = ''0.0.0.0'',
                      mac = None, iface = None\<rparr>)"
  using find_iface_None [OF assms(3) assms(4)] assms(1) assms(2)
  by (simp add: get_active_connection_def get_active_connection_try_def no_connection_def)

theorem get_active_connection_disconnected_witness:
  "get_active_connection (Fulfilled ''eth0'')
     (Fulfilled [\<lparr>if_iface = ''lo'', if_type = ''virtual'', if_speed = None,
                   if_operstate = ''down'', if_ip4 = ''127.0.0.1'', if_mac = []\<rparr>]) Rejected =
   Inr (Some \<lparr>ssid = ''No Connection'', signal_level = None, security = None,
              type = ''none'', speed = 0, status = ''down'', ip4 = ''0.0.0.0'',
              mac = None, iface = None\<rparr>)"
  using get_active_connection_disconnected
    [of "Fulfilled ''eth0''" "''eth0''"
        "Fulfilled [\<lparr>if_iface = ''lo'', if_type = ''virtual'', if_speed = None,
                   if_operstate = ''down'', if_ip4 = ''127.0.0.1'', if_mac = []\<rparr>]"
        "[\<lparr>if_iface = ''lo'', if_type = ''virtual'', if_speed = None,
                   if_operstate = ''down'', if_ip4 = ''127.0.0.1'', if_mac = []\<rparr>]" Rejected]
  by simp

text \<open>
  Claim C5. When the interface found is wireless and the wireless-status query fails, the
  call still returns a snapshot, not null: its SSID is the interface name, its signal
  level the default 100 and its security the default "N/A".
\<close>

theorem get_active_connection_wifi_query_fails:
  assumes "d = Fulfilled defaultIfaceName"
    and "ifs = Fulfilled allInterfaces"
    and "find_iface defaultIfaceName allInterfaces = Some i"
    and "if_type i = ''wireless''"
  shows "\<exists>stats. get_active_connection d ifs Rejected = Inr (Some stats) \<and>
           ssid stats = if_iface i \<and> signal_level stats = Some 100 \<and>
           security stats = Some ''N/A'' \<and> stats = initial_stats i"
  using assms
  by (simp add: get_active_connection_def get_active_connection_try_def wifi_try_def
      initial_stats_def)

theorem get_active_connection_wifi_query_fails_witness:
  "\<exists>stats. get_active_connection (Fulfilled ''wlan0'')
       (Fulfilled [\<lparr>if_iface = ''wlan0'', if_type = ''wireless'', if_speed = Some 300,
                     if_operstate = ''up'', if_ip4 = ''192.168.1.7'',
                     if_mac = ''aa:bb:cc:dd:ee:ff''\<rparr>]) Rejected = Inr (Some stats) \<and>
     ssid stats = ''wlan0'' \<and> signal_level stats = Some 100 \<and> security stats = Some ''N/A''"
  using get_active_connection_wifi_query_fails
    [of "Fulfilled ''wlan0''" "''wlan0''"
        "Fulfilled [\<lparr>if_iface = ''wlan0'', if_type = ''wireless'', if_speed = Some 300,
                     if_operstate = ''up'', if_ip4 = ''192.168.1.7'',
                     if_mac = ''aa:bb:cc:dd:ee:ff''\<rparr>]"
        "[\<lparr>if_iface = ''wlan0'', if_type = ''wireless'', if_speed = Some 300,
                     if_operstate = ''up'', if_ip4 = ''192.168.1.7'',
                     if_mac = ''aa:bb:cc:dd:ee:ff''\<rparr>]"
        "\<lparr>if_iface = ''wlan0'', if_type = ''wireless'', if_speed = Some 300,
                     if_operstate = ''up'', if_ip4 = ''192.168.1.7'',
                     if_mac = ''aa:bb:cc:dd:ee:ff''\<rparr>"]
  by (simp add: find_iface_def)

text \<open>
  Claim C10. When the interface found is not wireless, the SSID of the snapshot is the
  fixed string "Ethernet Connection", whatever the interface is called.
\<close>

theorem get_active_connection_not_wireless:
  assumes "d = Fulfilled defaultIfaceName"
    and "ifs = Fulfilled allInterfaces"
    and "find_iface defaultIfaceName allInterfaces = Some i"
    and "if_type i \<noteq> ''wireless''"
  shows "\<exists>stats. get_active_connection d ifs w = Inr (Some stats) \<and>
           ssid stats = ''Ethernet Connection'' \<and>
           stats = (initial_stats i)\<lparr>ssid := ''Ethernet Connection''\<rparr>"
  using assms
  by (simp add: get_active_connection_def get_active_connection_try_def)

theorem get_active_connection_not_wireless_witness:
  "\<exists>stats. get_active_connection (Fulfilled ''eth0'')
       (Fulfilled [\<lparr>if_iface = ''eth0'', if_type = ''wired'', if_speed = Some 1000,
                     if_operstate = ''up'', if_ip4 = ''10.0.0.2'',
                     if_mac = ''aa:bb:cc:dd:ee:ff''\<rparr>]) (Fulfilled None) = Inr (Some stats) \<and>
     ssid stats = ''Ethernet Connection'' \<and> ssid stats \<noteq> ''eth0''"
  using get_active_connection_not_wireless
    [of "Fulfilled ''eth0''" "''eth0''"
        "Fulfilled [\<lparr>if_iface = ''eth0'', if_type = ''wired'', if_speed = Some 1000,
                     if_operstate = ''up'', if_ip4 = ''10.0.0.2'',
                     if_mac = ''aa:bb:cc:dd:ee:ff''\<rparr>]"
        "[\<lparr>if_iface = ''eth0'', if_type = ''wired'', if_speed = Some 1000,
                     if_operstate = ''up'', if_ip4 = ''10.0.0.2'',
                     if_mac = ''aa:bb:cc:dd:ee:ff''\<rparr>]"
        "\<lparr>if_iface = ''eth0'', if_type = ''wired'', if_speed = Some 1000,
                     if_operstate = ''up'', if_ip4 = ''10.0.0.2'',
                     if_mac = ''aa:bb:cc:dd:ee:ff''\<rparr>" "Fulfilled None"]
  by (simp add: find_iface_def)

section \<open>The usage statistics\<close>

lemma find_positive_rate:
  assumes "\<forall>s \<in> set xs. 0 \<le> rx_sec s \<and> 0 \<le> tx_sec s"
  shows "find (\<lambda>s. rx_sec s > 0 \<or> tx_sec s > 0) xs = find (\<lambda>s. rx_sec s \<noteq> 0 \<or> tx_sec s \<noteq> 0) xs"
  using assms by (induction xs) auto

text \<open>
  Claim C6. The call asks for the statistics of the default interface and returns their
  first entry when there is one. When that answer is unavailable (null or empty), it
  turns to the statistics of all interfaces and returns the first entry with a nonzero
  receive or transmit rate, else the first entry, else null; rates are byte counts per
  second and not negative. The call never throws: whenever a query fails, it returns null.
\<close>

theorem get_network_usage_result:
  "(\<exists>r. get_network_usage d statsOf allStats = Inr r) \<and>
   (d = Fulfilled defaultIface \<and> statsOf defaultIface = Fulfilled (Some (s # ss)) \<longrightarrow>
      get_network_usage d statsOf allStats = Inr (Some s)) \<and>
   (d = Fulfilled defaultIface \<and> statsOf defaultIface = Fulfilled stats \<and>
    (stats = None \<or> stats = Some []) \<and> allStats = Fulfilled (Some xs) \<and>
    (\<forall>s \<in> set xs. 0 \<le> rx_sec s \<and> 0 \<le> tx_sec s) \<longrightarrow>
      get_network_usage d statsOf allStats =
        Inr (case find (\<lambda>s. rx_sec s \<noteq> 0 \<or> tx_sec s \<noteq> 0) xs of
               Some s \<Rightarrow> Some s
             | None \<Rightarrow> (case xs of [] \<Rightarrow> None | s # ss \<Rightarrow> Some s))) \<and>
   (d = Rejected \<or>
    d = Fulfilled defaultIface \<and> statsOf defaultIface = Rejected \<or>
    d = Fulfilled defaultIface \<and> statsOf defaultIface = Fulfilled stats \<and>
      (stats = None \<or> stats = Some []) \<and> (allStats = Rejected \<or> allStats = Fulfilled None) \<longrightarrow>
      get_network_usage d statsOf allStats = Inr None)"
proof -
  have total: "\<exists>r. get_network_usage d statsOf allStats = Inr r"
    by (simp add: get_network_usage_def split: sum.splits)
  have first: "get_network_usage d statsOf allStats = Inr (Some s)"
    if "d = Fulfilled defaultIface" and "statsOf defaultIface = Fulfilled (Some (s # ss))"
    using that by (simp add: get_network_usage_def get_network_usage_try_def)
  have fallback: "get_network_usage d statsOf allStats =
        Inr (case find (\<lambda>s. rx_sec s \<noteq> 0 \<or> tx_sec s \<noteq> 0) xs of
               Some s \<Rightarrow> Some s
             | None \<Rightarrow> (case xs of [] \<Rightarrow> None | s # ss \<Rightarrow> Some s))"
    if "d = Fulfilled defaultIface" and "statsOf defaultIface = Fulfilled stats"
      and "stats = None \<or> stats = Some []" and "allStats = Fulfilled (Some xs)"
      and "\<forall>s \<in> set xs. 0 \<le> rx_sec s \<and> 0 \<le> tx_sec s"
    using that(1-4) find_positive_rate [OF that(5)]
    by (auto simp add: get_network_usage_def get_network_usage_try_def
        split: option.splits list.splits)
  have failure: "get_network_usage d statsOf allStats = Inr None"
    if "d = Rejected \<or>
        d = Fulfilled defaultIface \<and> statsOf defaultIface = Rejected \<or>
        d = Fulfilled defaultIface \<and> statsOf defaultIface = Fulfilled stats \<and>
          (stats = None \<or> stats = Some []) \<and> (allStats = Rejected \<or> allStats = Fulfilled None)"
    using that by (auto simp add: get_network_usage_def get_network_usage_try_def)
  from total first fallback failure show ?thesis
    by blast
qed

theorem get_network_usage_result_witness:
  "get_network_usage (Fulfilled ''eth0'')
     (\<lambda>n. Fulfilled (Some [\<lparr>rx_sec = 0, tx_sec = 0\<rparr>, \<lparr>rx_sec = 7, tx_sec = 0\<rparr>]))
     Rejected = Inr (Some \<lparr>rx_sec = 0, tx_sec = 0\<rparr>) \<and>
   get_network_usage (Fulfilled ''eth0'') (\<lambda>n. Fulfilled (Some []))
     (Fulfilled (Some [\<lparr>rx_sec = 0, tx_sec = 0\<rparr>, \<lparr>rx_sec = 0, tx_sec = 7\<rparr>])) =
     Inr (Some \<lparr>rx_sec = 0, tx_sec = 7\<rparr>) \<and>
   get_network_usage (Fulfilled ''eth0'') (\<lambda>n. Fulfilled None)
     (Fulfilled (Some [\<lparr>rx_sec = 0, tx_sec = 0\<rparr>, \<lparr>rx_sec = 0, tx_sec = 0\<rparr>])) =
     Inr (Some \<lparr>rx_sec = 0, tx_sec = 0\<rparr>) \<and>
   get_network_usage (Fulfilled ''eth0'') (\<lambda>n. Rejected)
     (Fulfilled (Some [\<lparr>rx_sec = 0, tx_sec = 7\<rparr>])) = Inr None"
  using get_network_usage_result
    [of "Fulfilled ''eth0''"
        "\<lambda>n. Fulfilled (Some [\<lparr>rx_sec = 0, tx_sec = 0\<rparr>, \<lparr>rx_sec = 7, tx_sec = 0\<rparr>])"
        Rejected "''eth0''" "\<lparr>rx_sec = 0, tx_sec = 0\<rparr>" "[\<lparr>rx_sec = 7, tx_sec = 0\<rparr>]"]
    get_network_usage_result
    [of "Fulfilled ''eth0''" "\<lambda>n. Fulfilled (Some [])"
        "Fulfilled (Some [\<lparr>rx_sec = 0, tx_sec = 0\<rparr>, \<lparr>rx_sec = 0, tx_sec = 7\<rparr>])" "''eth0''"
        _ _ "Some []" "[\<lparr>rx_sec = 0, tx_sec = 0\<rparr>, \<lparr>rx_sec = 0, tx_sec = 7\<rparr>]"]
    get_network_usage_result
    [of "Fulfilled ''eth0''" "\<lambda>n. Fulfilled None"
        "Fulfilled (Some [\<lparr>rx_sec = 0, tx_sec = 0\<rparr>, \<lparr>rx_sec = 0, tx_sec = 0\<rparr>])" "''eth0''"
        _ _ None "[\<lparr>rx_sec = 0, tx_sec = 0\<rparr>, \<lparr>rx_sec = 0, tx_sec = 0\<rparr>]"]
    get_network_usage_result
    [of "Fulfilled ''eth0''" "\<lambda>n. Rejected"
        "Fulfilled (Some [\<lparr>rx_sec = 0, tx_sec = 7\<rparr>])" "''eth0''"]
  by simp

section \<open>The scan guard\<close>

lemma scan_run_Nil: "scan_run s [] = s"
  by (simp add: scan_run_def)

lemma scan_run_Cons: "scan_run s (e # evs) = scan_run (scan_step s e) evs"
  by (simp add: scan_run_def)

lemma scan_run_snoc: "scan_run s (evs @ [e]) = scan_step (scan_run s evs) e"
  by (simp add: scan_run_def)

lemma resume_fields:
  "isScanning (resume i r s) = False"
  "awaiting (resume i r s) = removeAll i (awaiting s)"
  "replies (resume i r s) = replies s @ [(i, r)]"
  "discoveries (resume i r s) = discoveries s"
  "next_id (resume i r s) = next_id s"
  by (simp_all add: resume_def)

lemma invoke_free:
  assumes "\<not> isScanning s"
  shows "isScanning (invoke s)" and "awaiting (invoke s) = awaiting s @ [next_id s]"
    and "replies (invoke s) = replies s" and "discoveries (invoke s) = discoveries s @ [next_id s]"
    and "next_id (invoke s) = Suc (next_id s)"
  using assms by (simp_all add: invoke_def Let_def)

lemma invoke_guarded:
  assumes "isScanning s"
  shows "invoke s = s\<lparr>replies := replies s @ [(next_id s, [])], next_id := Suc (next_id s)\<rparr>"
  using assms by (simp add: invoke_def Let_def)

text \<open>Each of the three ways in which the race of a waiting invocation settles.\<close>

lemma settle_waiting:
  assumes "i \<in> set (awaiting s)"
  shows "\<not> isScanning (scan_step s (FindFulfils i devices))"
    and "replies (scan_step s (FindFulfils i devices)) = replies s @ [(i, devices)]"
    and "\<not> isScanning (scan_step s (FindRejects i))"
    and "replies (scan_step s (FindRejects i)) = replies s @ [(i, [])]"
    and "\<not> isScanning (scan_step s (TimerFires i))"
    and "replies (scan_step s (TimerFires i)) = replies s @ [(i, [])]"
    and "i \<notin> set (awaiting (scan_step s (FindFulfils i devices)))"
    and "i \<notin> set (awaiting (scan_step s (FindRejects i)))"
    and "i \<notin> set (awaiting (scan_step s (TimerFires i)))"
  using assms by (simp_all add: Let_def resume_def)

text \<open>What settles after the race changes neither the guard nor the replies.\<close>

lemma settle_late:
  assumes "i \<notin> set (awaiting s)"
  shows "isScanning (scan_step s (FindFulfils i devices)) = isScanning s"
    and "replies (scan_step s (FindFulfils i devices)) = replies s"
    and "awaiting (scan_step s (FindFulfils i devices)) = awaiting s"
    and "isScanning (scan_step s (FindRejects i)) = isScanning s"
    and "replies (scan_step s (FindRejects i)) = replies s"
    and "awaiting (scan_step s (FindRejects i)) = awaiting s"
    and "scan_step s (TimerFires i) = s"
  using assms by (simp_all add: Let_def)

lemma scan_once:
  assumes "\<not> isScanning s"
  shows "\<not> isScanning (scan_run s (Invoke # schedule (next_id s) d))"
    and "next_id s \<notin> set (awaiting (scan_run s (Invoke # schedule (next_id s) d)))"
    and "replies (scan_run s (Invoke # schedule (next_id s) d)) =
           replies s @ [(next_id s,
              case d of Finds t devices \<Rightarrow> if 15000 < t then [] else devices
                      | Fails t \<Rightarrow> [] | Hangs \<Rightarrow> [])]"
proof -
  define i where "i = next_id s"
  define s1 where "s1 = invoke s"
  have waiting: "i \<in> set (awaiting s1)"
    using invoke_free(2) [OF assms] by (simp add: s1_def i_def)
  have r1: "replies s1 = replies s"
    using invoke_free(3) [OF assms] by (simp add: s1_def)
  note w = settle_waiting [OF waiting]
  have two: "\<not> isScanning (scan_step (scan_step s1 e) e') \<and>
             i \<notin> set (awaiting (scan_step (scan_step s1 e) e')) \<and>
             replies (scan_step (scan_step s1 e) e') = replies (scan_step s1 e)"
    if "\<not> isScanning (scan_step s1 e)" and "i \<notin> set (awaiting (scan_step s1 e))"
      and "e' = FindFulfils i devices \<or> e' = FindRejects i \<or> e' = TimerFires i"
    for e e' devices
    using that settle_late [OF that(2)] by auto
  show "\<not> isScanning (scan_run s (Invoke # schedule (next_id s) d))"
    using w two by (cases d) (auto simp add: scan_run_Cons scan_run_Nil s1_def [symmetric] i_def [symmetric])
  show "next_id s \<notin> set (awaiting (scan_run s (Invoke # schedule (next_id s) d)))"
    using w two by (cases d) (auto simp add: scan_run_Cons scan_run_Nil s1_def [symmetric] i_def [symmetric])
  show "replies (scan_run s (Invoke # schedule (next_id s) d)) =
           replies s @ [(next_id s,
              case d of Finds t devices \<Rightarrow> if 15000 < t then [] else devices
                      | Fails t \<Rightarrow> [] | Hangs \<Rightarrow> [])]"
    using w two r1
    by (cases d) (auto simp add: scan_run_Cons scan_run_Nil s1_def [symmetric] i_def [symmetric])
qed

text \<open>
  Claim C1. An execution of get-local-devices that starts a discovery (it found the guard
  free) returns the devices when the discovery succeeds within the 15000 ms, and the empty
  list when the discovery fails or exceeds the 15000 ms; whichever it is, the guard is
  false once the execution has completed. The same holds step by step for an invocation
  that waits, in any state: each of the three ways in which its race settles returns what
  is said above and clears the guard.
\<close>

theorem get_local_devices_releases_guard:
  "(\<not> isScanning s \<longrightarrow>
      \<not> isScanning (scan_run s (Invoke # schedule (next_id s) d)) \<and>
      replies (scan_run s (Invoke # schedule (next_id s) d)) =
        replies s @ [(next_id s,
           case d of Finds t devices \<Rightarrow> if 15000 < t then [] else devices
                   | Fails t \<Rightarrow> [] | Hangs \<Rightarrow> [])]) \<and>
   (i \<in> set (awaiting s) \<longrightarrow>
      \<not> isScanning (scan_step s (FindFulfils i found)) \<and>
      replies (scan_step s (FindFulfils i found)) = replies s @ [(i, found)] \<and>
      \<not> isScanning (scan_step s (FindRejects i)) \<and>
      replies (scan_step s (FindRejects i)) = replies s @ [(i, [])] \<and>
      \<not> isScanning (scan_step s (TimerFires i)) \<and>
      replies (scan_step s (TimerFires i)) = replies s @ [(i, [])])"
  using scan_once(1) [of s d] scan_once(3) [of s d] settle_waiting(1-6) [of i s]
  by blast

theorem get_local_devices_releases_guard_witness:
  "\<not> isScanning (coordinator_init :: Device coordinator) \<and>
   \<not> isScanning (scan_run (coordinator_init :: Device coordinator)
        (Invoke # schedule 0 (Finds 20000 [\<lparr>device_ip = ''10.0.0.9'', device_mac = ''aa:bb'', device_name = ''?''\<rparr>]))) \<and>
   replies (scan_run (coordinator_init :: Device coordinator)
        (Invoke # schedule 0 (Finds 20000 [\<lparr>device_ip = ''10.0.0.9'', device_mac = ''aa:bb'', device_name = ''?''\<rparr>]))) =
     [(0, [])] \<and>
   0 \<in> set (awaiting (scan_step (coordinator_init :: Device coordinator) Invoke)) \<and>
   \<not> isScanning (scan_step (scan_step (coordinator_init :: Device coordinator) Invoke) (TimerFires 0)) \<and>
   replies (scan_step (scan_step (coordinator_init :: Device coordinator) Invoke)
      (FindFulfils 0 [\<lparr>device_ip = ''10.0.0.9'', device_mac = ''aa:bb'', device_name = ''?''\<rparr>])) =
     [(0, [\<lparr>device_ip = ''10.0.0.9'', device_mac = ''aa:bb'', device_name = ''?''\<rparr>])]"
  using get_local_devices_releases_guard
    [where s = "coordinator_init :: Device coordinator"
       and d = "Finds 20000 [\<lparr>device_ip = ''10.0.0.9'', device_mac = ''aa:bb'', device_name = ''?''\<rparr>]"
       and i = 0 and found = "[]"]
    get_local_devices_releases_guard
    [where s = "scan_step (coordinator_init :: Device coordinator) Invoke" and d = Hangs and i = 0
       and found = "[\<lparr>device_ip = ''10.0.0.9'', device_mac = ''aa:bb'', device_name = ''?''\<rparr>]"]
  by (simp add: coordinator_init_def invoke_def)

lemma guard_inv_step:
  assumes "guard_inv s"
  shows "guard_inv (scan_step s e)"
proof (cases e)
  case Invoke
  then show ?thesis
    using assms by (simp add: guard_inv_def invoke_def Let_def)
next
  case (FindFulfils i devices)
  then show ?thesis
    using assms
    by (cases "awaiting s") (auto simp add: guard_inv_def resume_def Let_def split: if_splits)
next
  case (FindRejects i)
  then show ?thesis
    using assms
    by (cases "awaiting s") (auto simp add: guard_inv_def resume_def Let_def split: if_splits)
next
  case (TimerFires i)
  then show ?thesis
    using assms
    by (cases "awaiting s") (auto simp add: guard_inv_def resume_def Let_def split: if_splits)
qed

lemma guard_inv_run: "guard_inv (scan_run coordinator_init evs)"
proof (induction evs rule: rev_induct)
  case Nil
  show ?case
    by (simp add: scan_run_Nil guard_inv_def coordinator_init_def)
next
  case (snoc e evs)
  then show ?case
    by (simp add: scan_run_snoc guard_inv_step)
qed

text \<open>
  Claim C2, as the code has it. In every state the coordinator can reach: an invocation
  that finds the guard set returns the empty list in the very step in which it arrives,
  and that step starts no discovery, adds no waiting invocation and leaves the guard as it
  is; and at most one invocation holds the guard, the guard being set exactly while one
  does. A discovery that the timeout has abandoned is not counted here: it is not
  cancelled, and it can still run when the next scan starts its own.
\<close>

theorem guarded_invocation_returns_empty:
  "(isScanning (scan_run coordinator_init evs) \<longrightarrow>
      scan_step (scan_run coordinator_init evs) Invoke =
        (scan_run coordinator_init evs)
          \<lparr>replies := replies (scan_run coordinator_init evs) @
                        [(next_id (scan_run coordinator_init evs), [])],
           next_id := Suc (next_id (scan_run coordinator_init evs))\<rparr>) \<and>
   length (awaiting (scan_run coordinator_init evs)) \<le> 1 \<and>
   (isScanning (scan_run coordinator_init evs) \<longleftrightarrow> awaiting (scan_run coordinator_init evs) \<noteq> [])"
  using guard_inv_run [of evs] invoke_guarded [of "scan_run coordinator_init evs"]
  by (auto simp add: guard_inv_def split: if_splits)

theorem guarded_invocation_returns_empty_witness:
  "isScanning (scan_run (coordinator_init :: Device coordinator) [Invoke]) \<and>
   replies (scan_step (scan_run (coordinator_init :: Device coordinator) [Invoke]) Invoke) = [(1, [])] \<and>
   discoveries (scan_step (scan_run (coordinator_init :: Device coordinator) [Invoke]) Invoke) = [0] \<and>
   awaiting (scan_step (scan_run (coordinator_init :: Device coordinator) [Invoke]) Invoke) = [0]"
  using guarded_invocation_returns_empty [of "[Invoke] :: Device scan_event list"]
  by (simp add: scan_run_def coordinator_init_def invoke_def)

text \<open>
  Two discoveries in flight: the first scan times out, which releases the guard and leaves
  its discovery running, and the next invocation starts a second one.
\<close>

theorem two_discoveries_in_flight:
  "discoveries (scan_run (coordinator_init :: Device coordinator) [Invoke, TimerFires 0, Invoke]) = [0, 1] \<and>
   \<not> length (discoveries (scan_run (coordinator_init :: Device coordinator) [Invoke, TimerFires 0, Invoke])) \<le> 1"
  by (simp add: scan_run_def coordinator_init_def invoke_def resume_def)

section \<open>Labels\<close>

lemma radix_less:
  fixes q r q' r' :: nat
  assumes "r < 10" and "r' < 10"
  shows "10 * q + r < 10 * q' + r' \<longleftrightarrow> q < q' \<or> q = q' \<and> r < r'"
  using assms by auto

lemma radix_eq:
  fixes q r q' r' :: nat
  assumes "r < 10" and "r' < 10"
  shows "10 * q + r = 10 * q' + r' \<longleftrightarrow> q = q' \<and> r = r'"
proof
  assume eq: "10 * q + r = 10 * q' + r'"
  have "\<not> (q < q' \<or> q = q' \<and> r < r')"
    using radix_less [OF assms, of q q'] eq by simp
  moreover have "\<not> (q' < q \<or> q' = q \<and> r' < r)"
    using radix_less [OF assms(2) assms(1), of q' q] eq by simp
  ultimately show "q = q' \<and> r = r'"
    by auto
qed simp

lemma two_digits_less:
  fixes m n :: nat
  shows "m < n \<longleftrightarrow> m div 10 < n div 10 \<or> m div 10 = n div 10 \<and> m mod 10 < n mod 10"
  using radix_less [of "m mod 10" "n mod 10" "m div 10" "n div 10"] by simp

lemma two_digits_eq:
  fixes m n :: nat
  shows "m = n \<longleftrightarrow> m div 10 = n div 10 \<and> m mod 10 = n mod 10"
  using radix_eq [of "m mod 10" "n mod 10" "m div 10" "n div 10"] by simp

lemma of_char_digit:
  assumes "a < 10"
  shows "of_char (digit a) = 48 + a"
proof -
  have "of_char (digit a) = (48 + a) mod 256"
    unfolding digit_def by (rule of_char_of)
  also have "\<dots> = 48 + a"
    using assms by (intro mod_less) linarith
  finally show ?thesis .
qed

lemma digit_less: "a < 10 \<Longrightarrow> b < 10 \<Longrightarrow> digit a < digit b \<longleftrightarrow> a < b"
  by (simp only: less_char_def of_char_digit nat_add_left_cancel_less)

lemma digit_eq:
  assumes "a < 10" and "b < 10"
  shows "digit a = digit b \<longleftrightarrow> a = b"
proof
  assume "digit a = digit b"
  then have "(of_char (digit a) :: nat) = of_char (digit b)"
    by (rule arg_cong)
  then show "a = b"
    by (simp only: of_char_digit [OF assms(1)] of_char_digit [OF assms(2)] add_left_cancel)
next
  assume "a = b"
  then show "digit a = digit b"
    by (rule arg_cong)
qed

lemma pad2_le:
  assumes "m < 100" and "n < 100"
  shows "pad2 m @ xs \<le> pad2 n @ ys \<longleftrightarrow> m < n \<or> m = n \<and> xs \<le> ys"
proof -
  have m: "m div 10 mod 10 = m div 10" "m div 10 < 10" "m mod 10 < 10"
    using assms(1) by simp_all
  have n: "n div 10 mod 10 = n div 10" "n div 10 < 10" "n mod 10 < 10"
    using assms(2) by simp_all
  have "pad2 m @ xs \<le> pad2 n @ ys \<longleftrightarrow>
          m div 10 < n div 10 \<or> m div 10 = n div 10 \<and> (m mod 10 < n mod 10 \<or> m mod 10 = n mod 10 \<and> xs \<le> ys)"
    by (simp add: pad2_def m n digit_less digit_eq)
  then show ?thesis
    using two_digits_less [of m n] two_digits_eq [of m n] by blast
qed

lemma toLocaleTimeString_le:
  "toLocaleTimeString t \<le> toLocaleTimeString u \<longleftrightarrow>
     t div 3600 mod 24 < u div 3600 mod 24 \<or>
     t div 3600 mod 24 = u div 3600 mod 24 \<and>
       (t div 60 mod 60 < u div 60 mod 60 \<or>
        t div 60 mod 60 = u div 60 mod 60 \<and> t mod 60 \<le> u mod 60)"
proof -
  have bounds: "x div 3600 mod 24 < 100" "x div 60 mod 60 < 100" "x mod 60 < 100" for x :: nat
    by (simp_all add: less_trans [OF mod_less_divisor])
  have last: "pad2 m \<le> pad2 n \<longleftrightarrow> m \<le> n" if "m < 100" "n < 100" for m n
    using pad2_le [OF that, of "[]" "[]"] by auto
  show ?thesis
    unfolding toLocaleTimeString_def
    by (simp add: pad2_le bounds last del: append_assoc) 
qed

lemma time_of_day:
  fixes t :: nat
  shows "t mod 86400 = (t div 3600 mod 24) * 3600 + (t div 60 mod 60) * 60 + t mod 60"
proof -
  have a: "t mod (60 * 1440) = 60 * (t div 60 mod 1440) + t mod 60"
    by (rule mod_mult2_eq)
  have b: "t div 60 mod (60 * 24) = 60 * (t div 60 div 60 mod 24) + t div 60 mod 60"
    by (rule mod_mult2_eq)
  have c: "t div 60 div 60 = t div (60 * 60)"
    by (rule div_mult2_eq [symmetric])
  have "t mod 86400 = 60 * (60 * (t div 3600 mod 24) + t div 60 mod 60) + t mod 60"
    using a b c by simp
  then show ?thesis
    by simp
qed

lemma lexicographic_hms:
  fixes h m s h' m' s' :: nat
  assumes "h * 3600 + m * 60 + s \<le> h' * 3600 + m' * 60 + s'"
    and "m < 60" and "s < 60" and "m' < 60" and "s' < 60"
  shows "h < h' \<or> h = h' \<and> (m < m' \<or> m = m' \<and> s \<le> s')"
proof (cases "h' < h")
  case True
  then have "h' + 1 \<le> h"
    by simp
  then have "(h' + 1) * 3600 \<le> h * 3600"
    by (rule mult_le_mono1)
  with assms show ?thesis
    by simp
next
  case False
  show ?thesis
  proof (cases "h = h'")
    case True
    with assms show ?thesis
      by auto
  next
    case False
    with \<open>\<not> h' < h\<close> show ?thesis
      by simp
  qed
qed

lemma same_day_le:
  fixes t u :: nat
  assumes "t \<le> u" and "t div 86400 = u div 86400"
  shows "t mod 86400 \<le> u mod 86400"
proof -
  have "t div 86400 * 86400 + t mod 86400 \<le> u div 86400 * 86400 + u mod 86400"
    using assms(1) by (simp only: div_mult_mod_eq)
  then show ?thesis
    by (simp only: assms(2) add_le_cancel_left)
qed

lemma toLocaleTimeString_mono:
  assumes "t \<le> u" and "t div 86400 = u div 86400"
  shows "toLocaleTimeString t \<le> toLocaleTimeString u"
proof -
  have "(t div 3600 mod 24) * 3600 + (t div 60 mod 60) * 60 + t mod 60
      \<le> (u div 3600 mod 24) * 3600 + (u div 60 mod 60) * 60 + u mod 60"
    using same_day_le [OF assms] by (simp only: time_of_day)
  then show ?thesis
    unfolding toLocaleTimeString_le
    by (rule lexicographic_hms) simp_all
qed

section \<open>The usage history\<close>

lemma ui_run_Nil: "ui_run s [] = s"
  by (simp add: ui_run_def)

lemma ui_run_Cons: "ui_run s (e # evs) = ui_run (ui_step s e) evs"
  by (simp add: ui_run_def)

lemma length_append_usage: "length (append_usage prev t usage) \<le> 40"
  by (simp add: append_usage_def Let_def)

lemma append_usage_below:
  assumes "length prev < 40"
  shows "append_usage prev t usage = prev @ [usage_sample t usage]"
  using assms by (simp add: append_usage_def Let_def)

lemma append_usage_full:
  assumes "length prev = 40"
  shows "append_usage prev t usage = tl prev @ [usage_sample t usage]"
  using assms by (simp add: append_usage_def Let_def drop_Suc)

lemma usageHistory_step:
  "usageHistory (ui_step s e) = usageHistory s \<or>
   (\<exists>i usage t. e = UsageSettles i (Fulfilled (Some usage)) t \<and>
      usageHistory (ui_step s e) = append_usage (usageHistory s) t usage)"
  by (cases e)
    (auto simp add: fetchStats_def effect_def teardown_def setConnection_def setUsageHistory_def
      split: option.splits phase.splits awaited.splits)

lemma length_usageHistory_step:
  assumes "length (usageHistory s) \<le> 40"
  shows "length (usageHistory (ui_step s e)) \<le> 40"
  using usageHistory_step [of s e] assms length_append_usage by auto

lemma length_usageHistory_run:
  assumes "length (usageHistory s) \<le> 40"
  shows "length (usageHistory (ui_run s evs)) \<le> 40"
  using assms
proof (induction evs arbitrary: s)
  case Nil
  then show ?case
    by (simp add: ui_run_Nil)
next
  case (Cons e evs)
  then show ?case
    by (simp add: ui_run_Cons length_usageHistory_step)
qed

text \<open>A step that takes a reading appends the sample built from it; any other leaves the history.\<close>

lemma reading_Some:
  assumes "reading_taken s e = Some t"
  shows "\<exists>usage :: NetworkUsage. usageHistory (ui_step s e) = append_usage (usageHistory s) t usage"
proof -
  obtain i usage where "e = UsageSettles i (Fulfilled (Some usage)) t"
    and "ticks s i = Some AwaitUsage" and "life s = Mounted"
    using assms by (cases "(s, e)" rule: reading_taken.cases) (auto split: if_splits)
  then have "usageHistory (ui_step s e) = append_usage (usageHistory s) t usage"
    by (simp add: setUsageHistory_def)
  then show ?thesis
    by blast
qed

lemma reading_None:
  assumes "reading_taken s e = None"
  shows "usageHistory (ui_step s e) = usageHistory s"
proof (cases "usageHistory (ui_step s e) = usageHistory s")
  case True
  then show ?thesis .
next
  case False
  then obtain i usage t where e: "e = UsageSettles i (Fulfilled (Some usage)) t"
    using usageHistory_step [of s e] by blast
  have "\<not> (ticks s i = Some AwaitUsage \<and> life s = Mounted)"
    using assms by (simp add: e split: if_splits)
  then have "usageHistory (ui_step s e) = usageHistory s"
    by (auto simp add: e setUsageHistory_def split: option.splits phase.splits)
  with False show ?thesis
    by simp
qed

lemma labels_append_usage:
  assumes "map label h = map toLocaleTimeString rs"
  shows "map label (append_usage h t usage) =
           map toLocaleTimeString (drop (length (rs @ [t]) - 40) (rs @ [t]))"
proof -
  have len: "length h = length rs"
    using assms by (rule map_eq_imp_length_eq)
  have "map label (append_usage h t usage) =
      drop (length (h @ [usage_sample t usage]) - 40) (map label (h @ [usage_sample t usage]))"
    by (simp only: append_usage_def Let_def drop_map)
  also have "map label (h @ [usage_sample t usage]) = map toLocaleTimeString (rs @ [t])"
    using assms by (simp add: usage_sample_def)
  also have "length (h @ [usage_sample t usage]) = length (rs @ [t])"
    using len by simp
  finally show ?thesis
    by (simp only: drop_map)
qed

lemma labels_run:
  assumes "map label (usageHistory s) = map toLocaleTimeString rs"
  shows "map label (usageHistory (ui_run s evs)) = map toLocaleTimeString (retained_readings rs s evs)"
  using assms
proof (induction evs arbitrary: s rs)
  case Nil
  then show ?case
    by (simp add: ui_run_Nil)
next
  case (Cons e evs)
  show ?case
  proof (cases "reading_taken s e")
    case None
    have "map label (usageHistory (ui_step s e)) = map toLocaleTimeString rs"
      using reading_None [OF None] Cons.prems by simp
    then have "map label (usageHistory (ui_run (ui_step s e) evs)) =
        map toLocaleTimeString (retained_readings rs (ui_step s e) evs)"
      by (rule Cons.IH)
    then show ?thesis
      by (simp add: ui_run_Cons None)
  next
    case (Some t)
    then obtain usage :: NetworkUsage
      where "usageHistory (ui_step s e) = append_usage (usageHistory s) t usage"
      using reading_Some by blast
    then have "map label (usageHistory (ui_step s e)) =
        map toLocaleTimeString (drop (length (rs @ [t]) - 40) (rs @ [t]))"
      using labels_append_usage [OF Cons.prems] by simp
    then have "map label (usageHistory (ui_run (ui_step s e) evs)) =
        map toLocaleTimeString
          (retained_readings (drop (length (rs @ [t]) - 40) (rs @ [t])) (ui_step s e) evs)"
      by (rule Cons.IH)
    then show ?thesis
      by (simp add: ui_run_Cons Some)
  qed
qed

lemma sorted_labels:
  assumes "sorted rs" and "\<forall>t \<in> set rs. t div 86400 = day"
  shows "sorted (map toLocaleTimeString rs)"
  using assms
proof (induction rs)
  case Nil
  show ?case
    by simp
next
  case (Cons r rs)
  have "toLocaleTimeString r \<le> toLocaleTimeString u" if "u \<in> set rs" for u
  proof (rule toLocaleTimeString_mono)
    show "r \<le> u"
      using Cons.prems(1) that by simp
    show "r div 86400 = u div 86400"
      using Cons.prems(2) that by simp
  qed
  moreover have "sorted (map toLocaleTimeString rs)"
    using Cons by simp
  ultimately show ?case
    by simp
qed

lemma label_before_midnight: "toLocaleTimeString 86399 = ''23:59:59''"
  by (simp add: toLocaleTimeString_def pad2_def digit_def char_of_def bit_0)

lemma label_after_midnight: "toLocaleTimeString 90000 = ''01:00:00''"
  by (simp add: toLocaleTimeString_def pad2_def digit_def char_of_def bit_0)

text \<open>
  Claim C9, as the code has it. After every sequence of events the usage history has at
  most 40 entries. An event either leaves the history as it is or appends one sample to
  it; the sample goes to the end, and when the history is full its oldest entry is dropped
  and nothing else. The labels are those of the clock readings at which the retained
  samples were taken, and they are in non-decreasing order as long as these readings do not
  go back and lie in one calendar day: a label is a time of day.
\<close>

theorem usageHistory_sliding_window:
  "length (usageHistory (ui_run aggregator_init evs)) \<le> 40 \<and>
   map label (usageHistory (ui_run aggregator_init evs)) =
     map toLocaleTimeString (retained_readings [] aggregator_init evs) \<and>
   (sorted (retained_readings [] aggregator_init evs) \<and>
    (\<forall>t \<in> set (retained_readings [] aggregator_init evs). t div 86400 = day) \<longrightarrow>
      sorted (map label (usageHistory (ui_run aggregator_init evs)))) \<and>
   (usageHistory (ui_step s e) = usageHistory s \<or>
    (\<exists>i usage t. e = UsageSettles i (Fulfilled (Some usage)) t \<and>
       usageHistory (ui_step s e) = append_usage (usageHistory s) t usage)) \<and>
   (length prev < 40 \<longrightarrow> append_usage prev t usage = prev @ [usage_sample t usage]) \<and>
   (length prev = 40 \<longrightarrow> append_usage prev t usage = tl prev @ [usage_sample t usage])"
proof -
  have "length (usageHistory (ui_run aggregator_init evs)) \<le> 40"
    by (rule length_usageHistory_run) (simp add: aggregator_init_def)
  moreover have labels: "map label (usageHistory (ui_run aggregator_init evs)) =
      map toLocaleTimeString (retained_readings [] aggregator_init evs)"
    by (rule labels_run) (simp add: aggregator_init_def)
  moreover have "sorted (map label (usageHistory (ui_run aggregator_init evs)))"
    if "sorted (retained_readings [] aggregator_init evs)"
      and "\<forall>t \<in> set (retained_readings [] aggregator_init evs). t div 86400 = day"
    unfolding labels using that by (rule sorted_labels)
  ultimately show ?thesis
    using usageHistory_step [of s e] append_usage_below [of prev t usage]
      append_usage_full [of prev t usage]
    by blast
qed

theorem usageHistory_sliding_window_witness:
  "retained_readings [] aggregator_init
     [Mount, ConnectionSettles 0 (Fulfilled None),
      UsageSettles 0 (Fulfilled (Some \<lparr>rx_sec = 2048, tx_sec = 1024\<rparr>)) 86398,
      IntervalFires, ConnectionSettles 1 (Fulfilled None),
      UsageSettles 1 (Fulfilled None) 86399,
      IntervalFires, ConnectionSettles 2 (Fulfilled None),
      UsageSettles 2 (Fulfilled (Some \<lparr>rx_sec = 2048, tx_sec = 1024\<rparr>)) 86399] = [86398, 86399] \<and>
   (86398 :: nat) div 86400 = 0 \<and> (86399 :: nat) div 86400 = 0 \<and>
   sorted (map label (usageHistory (ui_run aggregator_init
     [Mount, ConnectionSettles 0 (Fulfilled None),
      UsageSettles 0 (Fulfilled (Some \<lparr>rx_sec = 2048, tx_sec = 1024\<rparr>)) 86398,
      IntervalFires, ConnectionSettles 1 (Fulfilled None),
      UsageSettles 1 (Fulfilled None) 86399,
      IntervalFires, ConnectionSettles 2 (Fulfilled None),
      UsageSettles 2 (Fulfilled (Some \<lparr>rx_sec = 2048, tx_sec = 1024\<rparr>)) 86399]))) \<and>
   length ([] :: UsageSample list) < 40 \<and>
   append_usage [] 86399 \<lparr>rx_sec = 2048, tx_sec = 1024\<rparr> =
     [usage_sample 86399 \<lparr>rx_sec = 2048, tx_sec = 1024\<rparr>] \<and>
   length (replicate 40 (usage_sample 86398 \<lparr>rx_sec = 0, tx_sec = 0\<rparr>)) = 40 \<and>
   append_usage (replicate 40 (usage_sample 86398 \<lparr>rx_sec = 0, tx_sec = 0\<rparr>)) 86399
       \<lparr>rx_sec = 2048, tx_sec = 1024\<rparr> =
     tl (replicate 40 (usage_sample 86398 \<lparr>rx_sec = 0, tx_sec = 0\<rparr>)) @
       [usage_sample 86399 \<lparr>rx_sec = 2048, tx_sec = 1024\<rparr>]"
proof -
  have readings: "retained_readings [] aggregator_init
     [Mount, ConnectionSettles 0 (Fulfilled None),
      UsageSettles 0 (Fulfilled (Some \<lparr>rx_sec = 2048, tx_sec = 1024\<rparr>)) 86398,
      IntervalFires, ConnectionSettles 1 (Fulfilled None),
      UsageSettles 1 (Fulfilled None) 86399,
      IntervalFires, ConnectionSettles 2 (Fulfilled None),
      UsageSettles 2 (Fulfilled (Some \<lparr>rx_sec = 2048, tx_sec = 1024\<rparr>)) 86399] = [86398, 86399]"
    by (simp add: aggregator_init_def effect_def fetchStats_def setUsageHistory_def)
  have "sorted (retained_readings [] aggregator_init
     [Mount, ConnectionSettles 0 (Fulfilled None),
      UsageSettles 0 (Fulfilled (Some \<lparr>rx_sec = 2048, tx_sec = 1024\<rparr>)) 86398,
      IntervalFires, ConnectionSettles 1 (Fulfilled None),
      UsageSettles 1 (Fulfilled None) 86399,
      IntervalFires, ConnectionSettles 2 (Fulfilled None),
      UsageSettles 2 (Fulfilled (Some \<lparr>rx_sec = 2048, tx_sec = 1024\<rparr>)) 86399]) \<and>
    (\<forall>t \<in> set (retained_readings [] aggregator_init
     [Mount, ConnectionSettles 0 (Fulfilled None),
      UsageSettles 0 (Fulfilled (Some \<lparr>rx_sec = 2048, tx_sec = 1024\<rparr>)) 86398,
      IntervalFires, ConnectionSettles 1 (Fulfilled None),
      UsageSettles 1 (Fulfilled None) 86399,
      IntervalFires, ConnectionSettles 2 (Fulfilled None),
      UsageSettles 2 (Fulfilled (Some \<lparr>rx_sec = 2048, tx_sec = 1024\<rparr>)) 86399]). t div 86400 = 0)"
    unfolding readings by simp
  then have ordered: "sorted (map label (usageHistory (ui_run aggregator_init
     [Mount, ConnectionSettles 0 (Fulfilled None),
      UsageSettles 0 (Fulfilled (Some \<lparr>rx_sec = 2048, tx_sec = 1024\<rparr>)) 86398,
      IntervalFires, ConnectionSettles 1 (Fulfilled None),
      UsageSettles 1 (Fulfilled None) 86399,
      IntervalFires, ConnectionSettles 2 (Fulfilled None),
      UsageSettles 2 (Fulfilled (Some \<lparr>rx_sec = 2048, tx_sec = 1024\<rparr>)) 86399])))"
    using usageHistory_sliding_window
      [where evs = "[Mount, ConnectionSettles 0 (Fulfilled None),
        UsageSettles 0 (Fulfilled (Some \<lparr>rx_sec = 2048, tx_sec = 1024\<rparr>)) 86398,
        IntervalFires, ConnectionSettles 1 (Fulfilled None),
        UsageSettles 1 (Fulfilled None) 86399,
        IntervalFires, ConnectionSettles 2 (Fulfilled None),
        UsageSettles 2 (Fulfilled (Some \<lparr>rx_sec = 2048, tx_sec = 1024\<rparr>)) 86399]"
        and day = 0]
    by blast
  have below: "append_usage [] 86399 \<lparr>rx_sec = 2048, tx_sec = 1024\<rparr> =
     [usage_sample 86399 \<lparr>rx_sec = 2048, tx_sec = 1024\<rparr>]"
    using usageHistory_sliding_window
      [where prev = "[]" and t = 86399 and usage = "\<lparr>rx_sec = 2048, tx_sec = 1024\<rparr>"]
    by simp
  have full: "append_usage (replicate 40 (usage_sample 86398 \<lparr>rx_sec = 0, tx_sec = 0\<rparr>)) 86399
       \<lparr>rx_sec = 2048, tx_sec = 1024\<rparr> =
     tl (replicate 40 (usage_sample 86398 \<lparr>rx_sec = 0, tx_sec = 0\<rparr>)) @
       [usage_sample 86399 \<lparr>rx_sec = 2048, tx_sec = 1024\<rparr>]"
    using usageHistory_sliding_window
      [where prev = "replicate 40 (usage_sample 86398 \<lparr>rx_sec = 0, tx_sec = 0\<rparr>)"
        and t = 86399 and usage = "\<lparr>rx_sec = 2048, tx_sec = 1024\<rparr>"]
    by (simp only: length_replicate)
  have "(86398 :: nat) div 86400 = 0" and "(86399 :: nat) div 86400 = 0"
    and "length ([] :: UsageSample list) < 40"
    and "length (replicate 40 (usage_sample 86398 \<lparr>rx_sec = 0, tx_sec = 0\<rparr>)) = 40"
    by simp_all
  with readings ordered below full show ?thesis
    by blast
qed

text \<open>
  The labels of two successive samples, the second taken after midnight: the clock has not
  gone back, and the second label is below the first.
\<close>

theorem labels_wrap_at_midnight:
  "retained_readings [] aggregator_init
     [Mount, ConnectionSettles 0 (Fulfilled None),
      UsageSettles 0 (Fulfilled (Some \<lparr>rx_sec = 2048, tx_sec = 1024\<rparr>)) 86399,
      IntervalFires, ConnectionSettles 1 (Fulfilled None),
      UsageSettles 1 (Fulfilled (Some \<lparr>rx_sec = 2048, tx_sec = 1024\<rparr>)) 90000] = [86399, 90000] \<and>
   map label (usageHistory (ui_run aggregator_init
     [Mount, ConnectionSettles 0 (Fulfilled None),
      UsageSettles 0 (Fulfilled (Some \<lparr>rx_sec = 2048, tx_sec = 1024\<rparr>)) 86399,
      IntervalFires, ConnectionSettles 1 (Fulfilled None),
      UsageSettles 1 (Fulfilled (Some \<lparr>rx_sec = 2048, tx_sec = 1024\<rparr>)) 90000])) =
     [''23:59:59'', ''01:00:00''] \<and>
   \<not> sorted (map label (usageHistory (ui_run aggregator_init
     [Mount, ConnectionSettles 0 (Fulfilled None),
      UsageSettles 0 (Fulfilled (Some \<lparr>rx_sec = 2048, tx_sec = 1024\<rparr>)) 86399,
      IntervalFires, ConnectionSettles 1 (Fulfilled None),
      UsageSettles 1 (Fulfilled (Some \<lparr>rx_sec = 2048, tx_sec = 1024\<rparr>)) 90000])))"
  by (simp add: ui_run_def aggregator_init_def effect_def fetchStats_def setUsageHistory_def
      append_usage_def usage_sample_def label_before_midnight label_after_midnight)

section \<open>Teardown\<close>









end
